theory Spec2Isabelle
  imports Main "HOL-Library.Word"
begin

unbundle bit_operations_syntax

section \<open>Python values used by clean_png_metadata.py\<close>

text \<open>
  A Python \<open>bytes\<close> object is a list of 8-bit words. A Python \<open>str\<close> is a list of Unicode
  code points (natural numbers), because the reader can put U+FFFD into a chunk type and
  that character does not fit into an 8-bit \<open>char\<close>. Integers are Python's unbounded
  integers. The exceptions raised by the modelled functions are values of \<open>py_error\<close>;
  \<open>ValueError\<close> carries its message and stands for the six \<open>raise ValueError\<close> statements
  of the reader. \<open>UnicodeEncodeError\<close> (in Python a subclass of ValueError, raised by
  \<open>str.encode\<close>) and \<open>OverflowError\<close> (raised by \<open>int.to_bytes\<close>) are kept apart from them.
\<close>

type_synonym byte = "8 word"
type_synonym bytes = "byte list"
type_synonym pystr = "nat list"

datatype py_error = ValueError pystr | UnicodeEncodeError | OverflowError

definition ustr :: "string \<Rightarrow> pystr" where
  "ustr s = map of_char s"

text \<open>\<open>int.from_bytes(bs, "big")\<close>\<close>

definition from_bytes_big :: "bytes \<Rightarrow> int" where
  "from_bytes_big bs = foldl (\<lambda>a b. a * 256 + uint b) 0 bs"

text \<open>\<open>n.to_bytes(4, "big")\<close>: raises OverflowError for a negative or too large integer.\<close>

definition to_bytes4 :: "int \<Rightarrow> py_error + bytes" where
  "to_bytes4 n =
     (if n < 0 \<or> 2 ^ 32 \<le> n then Inl OverflowError
      else Inr [word_of_int (n div 2 ^ 24), word_of_int (n div 2 ^ 16),
                word_of_int (n div 2 ^ 8), word_of_int n])"

text \<open>\<open>bs.decode("ascii", errors="replace")\<close>: every byte above 0x7F becomes U+FFFD.\<close>

definition decode_ascii_replace :: "bytes \<Rightarrow> pystr" where
  "decode_ascii_replace bs = map (\<lambda>b. if b < 0x80 then unat b else 0xFFFD) bs"

text \<open>\<open>s.encode("ascii")\<close>: raises UnicodeEncodeError at a character above U+007F.\<close>

definition encode_ascii :: "pystr \<Rightarrow> py_error + bytes" where
  "encode_ascii s =
     (if list_all (\<lambda>c. c < 128) s then Inr (map of_nat s) else Inl UnicodeEncodeError)"

text \<open>
  The format specification \<open>08X\<close> of an f-string: upper-case hexadecimal digits, padded
  with zeros after the sign to a width of eight characters.
\<close>

definition hex_char :: "nat \<Rightarrow> char" where
  "hex_char d = ''0123456789ABCDEF'' ! d"

function hex_digits :: "nat \<Rightarrow> string" where
  "hex_digits n = (if n < 16 then [hex_char n] else hex_digits (n div 16) @ [hex_char (n mod 16)])"
  by pat_completeness auto
termination
  by (relation "measure id") auto

declare hex_digits.simps [simp del]

definition format_08X :: "int \<Rightarrow> pystr" where
  "format_08X n =
     (let ds = hex_digits (nat \<bar>n\<bar>); sign = (if n < 0 then ''-'' else [])
      in ustr (sign @ replicate (8 - length sign - length ds) CHR ''0'' @ ds))"

section \<open>CRC-32\<close>

text \<open>
  \<open>binascii.crc32\<close> is the CRC-32 of zlib and PNG: reflected polynomial 0xEDB88320,
  initial value and final complement 0xFFFFFFFF, one byte at a time, eight shifts a byte.
\<close>

definition crc_shift :: "32 word \<Rightarrow> 32 word" where
  "crc_shift c = (if c AND 1 = 1 then drop_bit 1 c XOR 0xEDB88320 else drop_bit 1 c)"

definition crc_update :: "32 word \<Rightarrow> byte \<Rightarrow> 32 word" where
  "crc_update c b = (crc_shift ^^ 8) (c XOR ucast b)"

definition binascii_crc32 :: "bytes \<Rightarrow> int" where
  "binascii_crc32 bs = uint (foldl crc_update 0xFFFFFFFF bs XOR 0xFFFFFFFF)"

section \<open>PNG chunk data structure\<close>

record PNGChunk =
  ch_length :: int
  ch_type :: pystr
  ch_data :: bytes
  ch_crc :: int

definition PNG_SIGNATURE :: bytes where
  "PNG_SIGNATURE = [0x89, 0x50, 0x4E, 0x47, 0x0D, 0x0A, 0x1A, 0x0A]"

definition compute_crc :: "bytes \<Rightarrow> bytes \<Rightarrow> int" where
  "compute_crc type_bytes data = binascii_crc32 (type_bytes @ data) AND 0xFFFFFFFF"

section \<open>The reader\<close>

text \<open>The messages of the six \<open>raise ValueError(...)\<close> statements of \<open>read_png_chunks\<close>.\<close>

definition msg_not_png :: "pystr \<Rightarrow> pystr" where
  "msg_not_png file_path = ustr ''Not a valid PNG file: '' @ file_path"

definition msg_eof_length :: "pystr \<Rightarrow> pystr" where
  "msg_eof_length file_path = ustr ''Unexpected EOF while reading length in '' @ file_path"

definition msg_eof_type :: "pystr \<Rightarrow> pystr" where
  "msg_eof_type file_path = ustr ''Unexpected EOF while reading type in '' @ file_path"

definition msg_eof_data :: "pystr \<Rightarrow> pystr \<Rightarrow> pystr" where
  "msg_eof_data chunk_type file_path =
     ustr ''Unexpected EOF while reading data for '' @ chunk_type @ ustr '' in '' @ file_path"

definition msg_eof_crc :: "pystr \<Rightarrow> pystr \<Rightarrow> pystr" where
  "msg_eof_crc chunk_type file_path =
     ustr ''Unexpected EOF while reading CRC for '' @ chunk_type @ ustr '' in '' @ file_path"

definition msg_crc_mismatch :: "pystr \<Rightarrow> pystr \<Rightarrow> int \<Rightarrow> int \<Rightarrow> pystr" where
  "msg_crc_mismatch chunk_type file_path expected_crc crc =
     ustr ''CRC mismatch for chunk '' @ chunk_type @ ustr '' in '' @ file_path
       @ ustr '': expected 0x'' @ format_08X expected_crc @ ustr '', got 0x'' @ format_08X crc"

text \<open>
  The \<open>while True\<close> loop of \<open>read_png_chunks\<close>. The open file is the list \<open>f\<close> of the bytes
  not read yet: \<open>f.read(n)\<close> returns \<open>take n f\<close> and leaves \<open>drop n f\<close>. The third
  argument is the list \<open>chunks\<close> built so far.
\<close>

function read_loop :: "pystr \<Rightarrow> bytes \<Rightarrow> PNGChunk list \<Rightarrow> py_error + PNGChunk list" where
  "read_loop file_path f chunks =
     (let len_bytes = take 4 f; f1 = drop 4 f in
      if len_bytes = [] then Inr chunks
      else if length len_bytes \<noteq> 4 then Inl (ValueError (msg_eof_length file_path))
      else
        let len = from_bytes_big len_bytes;
            type_bytes = take 4 f1; f2 = drop 4 f1 in
        if length type_bytes \<noteq> 4 then Inl (ValueError (msg_eof_type file_path))
        else
          let chunk_type = decode_ascii_replace type_bytes;
              data = take (nat len) f2; f3 = drop (nat len) f2 in
          if int (length data) \<noteq> len then Inl (ValueError (msg_eof_data chunk_type file_path))
          else
            let crc_bytes = take 4 f3; f4 = drop 4 f3 in
            if length crc_bytes \<noteq> 4 then Inl (ValueError (msg_eof_crc chunk_type file_path))
            else
              let crc = from_bytes_big crc_bytes;
                  expected_crc = compute_crc type_bytes data in
              if crc \<noteq> expected_crc
              then Inl (ValueError (msg_crc_mismatch chunk_type file_path expected_crc crc))
              else read_loop file_path f4
                     (chunks @ [\<lparr>ch_length = len, ch_type = chunk_type,
                                 ch_data = data, ch_crc = crc\<rparr>]))"
  by pat_completeness auto
termination
  by (relation "measure (\<lambda>(file_path, f, chunks). length f)") auto

declare read_loop.simps [simp del]

text \<open>
  \<open>read_png_chunks\<close> on a file whose content is \<open>content\<close>; \<open>file_path\<close> is the text that
  the messages show for the path.
\<close>

definition read_png_chunks :: "pystr \<Rightarrow> bytes \<Rightarrow> py_error + PNGChunk list" where
  "read_png_chunks file_path content =
     (let sig = take 8 content; f = drop 8 content in
      if sig \<noteq> PNG_SIGNATURE then Inl (ValueError (msg_not_png file_path))
      else read_loop file_path f [])"

section \<open>The writer\<close>

text \<open>
  The \<open>for\<close> loop of \<open>write_png_chunks\<close>; \<open>f\<close> is the content of the destination file so
  far. The four writes of a chunk happen in the order of the source, so the first
  conversion that raises decides the exception. \<open>write_png_chunks\<close> returns the size of
  the file; the model returns the content of the file with it. The destination is one
  that can be opened and accepts every write: an error of the file system is not a
  branch of the model.
\<close>

fun write_loop :: "PNGChunk list \<Rightarrow> bytes \<Rightarrow> py_error + bytes" where
  "write_loop [] f = Inr f"
| "write_loop (ch # chunks) f =
     (case to_bytes4 (ch_length ch) of Inl e \<Rightarrow> Inl e | Inr length_bytes \<Rightarrow>
      (case encode_ascii (ch_type ch) of Inl e \<Rightarrow> Inl e | Inr type_bytes \<Rightarrow>
       (case to_bytes4 (ch_crc ch) of Inl e \<Rightarrow> Inl e | Inr crc_bytes \<Rightarrow>
          write_loop chunks (f @ length_bytes @ type_bytes @ ch_data ch @ crc_bytes))))"

definition write_png_chunks :: "PNGChunk list \<Rightarrow> py_error + bytes \<times> int" where
  "write_png_chunks chunks =
     (case write_loop chunks PNG_SIGNATURE of
        Inl e \<Rightarrow> Inl e
      | Inr f \<Rightarrow> Inr (f, int (length f)))"

section \<open>The filter\<close>

definition CORE_CHUNKS :: "pystr set" where
  "CORE_CHUNKS = {ustr ''IHDR'', ustr ''PLTE'', ustr ''IDAT'', ustr ''IEND''}"

definition DROP_CHUNKS :: "pystr set" where
  "DROP_CHUNKS = {ustr ''tEXt'', ustr ''zTXt'', ustr ''iTXt'', ustr ''tIME'',
                  ustr ''pHYs'', ustr ''gAMA''}"

text \<open>The \<open>for\<close> loop of \<open>filter_chunks\<close>, with its two variables \<open>kept\<close> and \<open>removed\<close>.\<close>

fun filter_loop :: "PNGChunk list \<Rightarrow> PNGChunk list \<Rightarrow> int \<Rightarrow> PNGChunk list \<times> int" where
  "filter_loop [] kept removed = (kept, removed)"
| "filter_loop (ch # chunks) kept removed =
     (if ch_type ch \<in> CORE_CHUNKS then filter_loop chunks (kept @ [ch]) removed
      else if ch_type ch \<in> DROP_CHUNKS then filter_loop chunks kept (removed + 1)
      else filter_loop chunks (kept @ [ch]) removed)"

definition filter_chunks :: "PNGChunk list \<Rightarrow> PNGChunk list \<times> int" where
  "filter_chunks chunks = filter_loop chunks [] 0"

section \<open>The wire format\<close>

text \<open>
  The layout of one chunk in a file, used to describe inputs: a chunk with the raw type
  \<open>type_bytes\<close> and the content \<open>data\<close> is the big-endian length of the data, the type, the
  data and the big-endian CRC-32 of type and data. \<open>parsed\<close> is the record that the
  reader builds from such a chunk.
\<close>

definition u32be :: "int \<Rightarrow> bytes" where
  "u32be n = [word_of_int (n div 2 ^ 24), word_of_int (n div 2 ^ 16),
              word_of_int (n div 2 ^ 8), word_of_int n]"

definition wire_chunk :: "bytes \<times> bytes \<Rightarrow> bytes" where
  "wire_chunk rc =
     u32be (int (length (snd rc))) @ fst rc @ snd rc @ u32be (binascii_crc32 (fst rc @ snd rc))"

definition wire_ok :: "bytes \<times> bytes \<Rightarrow> bool" where
  "wire_ok rc \<longleftrightarrow> length (fst rc) = 4 \<and> int (length (snd rc)) < 2 ^ 32"

definition parsed :: "bytes \<times> bytes \<Rightarrow> PNGChunk" where
  "parsed rc = \<lparr>ch_length = int (length (snd rc)), ch_type = decode_ascii_replace (fst rc),
                ch_data = snd rc, ch_crc = binascii_crc32 (fst rc @ snd rc)\<rparr>"

text \<open>The position in the file of the chunk with index \<open>k\<close> of a list of chunks read from it.\<close>

definition chunk_offset :: "PNGChunk list \<Rightarrow> nat \<Rightarrow> nat" where
  "chunk_offset chunks k = 8 + sum_list (map (\<lambda>ch. 12 + length (ch_data ch)) (take k chunks))"

section \<open>Classification by raw type bytes\<close>

text \<open>
  \<open>type_decision\<close> is the three-way branch of the loop of \<open>filter_chunks\<close> on the decoded
  type. \<open>raw_decision\<close> is the classification that compares the four raw type bytes with
  the ASCII encodings of the members of \<open>CORE_CHUNKS\<close> and \<open>DROP_CHUNKS\<close>.
\<close>

datatype decision = Core | Drop | Pass_through

definition type_decision :: "pystr \<Rightarrow> decision" where
  "type_decision t =
     (if t \<in> CORE_CHUNKS then Core else if t \<in> DROP_CHUNKS then Drop else Pass_through)"

definition ascii_bytes :: "string \<Rightarrow> bytes" where
  "ascii_bytes s = map of_char s"

definition CORE_CHUNKS_RAW :: "bytes set" where
  "CORE_CHUNKS_RAW = {ascii_bytes ''IHDR'', ascii_bytes ''PLTE'', ascii_bytes ''IDAT'',
                      ascii_bytes ''IEND''}"

definition DROP_CHUNKS_RAW :: "bytes set" where
  "DROP_CHUNKS_RAW = {ascii_bytes ''tEXt'', ascii_bytes ''zTXt'', ascii_bytes ''iTXt'',
                      ascii_bytes ''tIME'', ascii_bytes ''pHYs'', ascii_bytes ''gAMA''}"

definition raw_decision :: "bytes \<Rightarrow> decision" where
  "raw_decision tb =
     (if tb \<in> CORE_CHUNKS_RAW then Core else if tb \<in> DROP_CHUNKS_RAW then Drop
      else Pass_through)"

section \<open>Example chunks and files\<close>

text \<open>
  Three chunks as the reader returns them and the bytes of each in a file: an IEND and an
  IDAT chunk without data, and a tEXt chunk whose data is the single byte 0x41.
\<close>

definition chunk_IEND :: PNGChunk where
  "chunk_IEND = \<lparr>ch_length = 0, ch_type = ustr ''IEND'', ch_data = [], ch_crc = 0xAE426082\<rparr>"

definition chunk_IDAT :: PNGChunk where
  "chunk_IDAT = \<lparr>ch_length = 0, ch_type = ustr ''IDAT'', ch_data = [], ch_crc = 0x35AF061E\<rparr>"

definition chunk_tEXt :: PNGChunk where
  "chunk_tEXt = \<lparr>ch_length = 1, ch_type = ustr ''tEXt'', ch_data = [0x41], ch_crc = 0x4E9DABE1\<rparr>"

definition bytes_IEND :: bytes where
  "bytes_IEND = [0, 0, 0, 0, 0x49, 0x45, 0x4E, 0x44, 0xAE, 0x42, 0x60, 0x82]"

definition bytes_IDAT :: bytes where
  "bytes_IDAT = [0, 0, 0, 0, 0x49, 0x44, 0x41, 0x54, 0x35, 0xAF, 0x06, 0x1E]"

definition bytes_tEXt :: bytes where
  "bytes_tEXt = [0, 0, 0, 1, 0x74, 0x45, 0x58, 0x74, 0x41, 0x4E, 0x9D, 0xAB, 0xE1]"

section \<open>Bytes and integers: auxiliary facts\<close>

lemma from_bytes_big4:
  "from_bytes_big [a, b, c, d] = ((uint a * 256 + uint b) * 256 + uint c) * 256 + uint d"
  by (simp add: from_bytes_big_def)

lemma uint_byte_bounds: "0 \<le> uint (b :: byte) \<and> uint b < 256"
  using uint_bounded [of b] by simp

lemma uint_byte_of_int: "uint (word_of_int k :: byte) = k mod 256"
  by (simp add: uint_word_of_int)

lemma length4E: "length xs = 4 \<Longrightarrow> \<exists>a b c d. xs = [a, b, c, d]"
  by (auto simp: length_Suc_conv eval_nat_numeral)

lemma length_u32be [simp]: "length (u32be n) = 4"
  by (simp add: u32be_def)

lemma to_bytes4_u32be: "0 \<le> n \<Longrightarrow> n < 2 ^ 32 \<Longrightarrow> to_bytes4 n = Inr (u32be n)"
  by (simp add: to_bytes4_def u32be_def)

lemma be_div:
  fixes a b c d :: int
  assumes "0 \<le> a" "0 \<le> b" "b < 256" "0 \<le> c" "c < 256" "0 \<le> d" "d < 256"
  shows "(((a * 256 + b) * 256 + c) * 256 + d) div 2 ^ 24 = a"
    and "(((a * 256 + b) * 256 + c) * 256 + d) div 2 ^ 16 = a * 256 + b"
    and "(((a * 256 + b) * 256 + c) * 256 + d) div 2 ^ 8 = (a * 256 + b) * 256 + c"
  using assms by simp_all

lemma from_bytes_big_range:
  assumes "length lb = 4"
  shows "0 \<le> from_bytes_big lb" and "from_bytes_big lb < 2 ^ 32"
proof -
  obtain a b c d where lb: "lb = [a, b, c, d]" using assms length4E by blast
  show "0 \<le> from_bytes_big lb" unfolding lb from_bytes_big4 by simp
  show "from_bytes_big lb < 2 ^ 32" unfolding lb from_bytes_big4
    using uint_byte_bounds [of a] uint_byte_bounds [of b] uint_byte_bounds [of c]
      uint_byte_bounds [of d]
    by simp
qed

lemma from_bytes_big_u32be:
  fixes n :: int
  assumes "0 \<le> n" "n < 2 ^ 32"
  shows "from_bytes_big (u32be n) = n"
proof -
  define q1 where "q1 = n div 256"
  define q2 where "q2 = q1 div 256"
  define q3 where "q3 = q2 div 256"
  have k1: "n div 2 ^ 8 = q1" by (simp add: q1_def)
  have k2: "n div 2 ^ 16 = q2" using zdiv_zmult2_eq [of 256 n 256] by (simp add: q1_def q2_def)
  have k3: "n div 2 ^ 24 = q3" using zdiv_zmult2_eq [of 256 n 65536] k2 by (simp add: q3_def)
  have "0 \<le> q3" "q3 < 256" using assms unfolding k3 [symmetric] by simp_all
  then have e3: "q3 mod 256 = q3" by simp
  have e2: "q3 * 256 + q2 mod 256 = q2" unfolding q3_def by simp
  have e1: "q2 * 256 + q1 mod 256 = q1" unfolding q2_def by simp
  have e0: "q1 * 256 + n mod 256 = n" unfolding q1_def by simp
  have "from_bytes_big (u32be n)
          = ((q3 mod 256 * 256 + q2 mod 256) * 256 + q1 mod 256) * 256 + n mod 256"
    unfolding u32be_def from_bytes_big4 uint_byte_of_int k1 k2 k3 ..
  also have "\<dots> = n" unfolding e3 e2 e1 e0 ..
  finally show ?thesis .
qed

lemma u32be_from_bytes_big:
  assumes "length lb = 4"
  shows "u32be (from_bytes_big lb) = lb"
proof -
  obtain a b c d where lb: "lb = [a, b, c, d]" using assms length4E by blast
  have A: "0 \<le> uint a" and B: "0 \<le> uint b" "uint b < 256"
    and C: "0 \<le> uint c" "uint c < 256" and D: "0 \<le> uint d" "uint d < 256"
    using uint_byte_bounds by blast+
  note dv = be_div [OF A B C D]
  have z: "(256 :: byte) = 0" "(65536 :: byte) = 0" "(16777216 :: byte) = 0" by simp_all
  show ?thesis
    unfolding lb from_bytes_big4 u32be_def dv by (simp add: z)
qed

lemma replicate_6_7:
  "replicate 6 x = [x, x, x, x, x, x]" "replicate 7 x = [x, x, x, x, x, x, x]"
  by (simp_all add: eval_nat_numeral)

lemma format_08X_examples:
  "format_08X 255 = ustr ''000000FF''"
  "format_08X 3616864859 = ustr ''D794FA5B''"
  "format_08X 0 = ustr ''00000000''"
  by (simp_all add: format_08X_def hex_digits.simps hex_char_def ustr_def replicate_6_7)

section \<open>CRC-32: auxiliary facts\<close>

lemma xor_cancel_right: "(a :: 32 word) XOR c = b XOR c \<Longrightarrow> a = b"
proof -
  assume "a XOR c = b XOR c"
  then have "(a XOR c) XOR c = (b XOR c) XOR c" by simp
  then show "a = b" by (simp add: xor.assoc)
qed

lemma xor_cancel_left: "(c :: 32 word) XOR a = c XOR b \<Longrightarrow> a = b"
  using xor_cancel_right [of a c b] by (simp add: xor.commute)

lemma ucast_8_32_inj:
  assumes "(ucast (b :: byte) :: 32 word) = ucast b'"
  shows "b = b'"
proof (rule bit_eqI)
  fix n
  have "bit (ucast b :: 32 word) n = bit (ucast b' :: 32 word) n" using assms by simp
  then show "bit b n = bit b' n" by (auto simp: bit_ucast_iff dest: bit_imp_le_length)
qed

lemma crc_shift_alt: "crc_shift c = drop_bit 1 c XOR (if bit c 0 then 0xEDB88320 else 0)"
  by (simp add: crc_shift_def and_one_eq bit_0 mod2_eq_if)

lemma crc_shift_msb: "bit (crc_shift c) 31 = bit c 0"
  unfolding crc_shift_alt
  by (auto simp add: bit_simps dest: bit_imp_le_length)

lemma crc_shift_inj:
  assumes "crc_shift a = crc_shift b"
  shows "a = b"
proof -
  have b0: "bit a 0 = bit b 0" using assms crc_shift_msb by metis
  have d: "drop_bit 1 a = drop_bit 1 b"
    using assms b0 unfolding crc_shift_alt by (auto split: if_splits dest: xor_cancel_right)
  show "a = b"
  proof (rule bit_eqI)
    fix n
    show "bit a n = bit b n"
    proof (cases n)
      case 0
      then show ?thesis using b0 by simp
    next
      case (Suc m)
      have "bit (drop_bit 1 a) m = bit (drop_bit 1 b) m" using d by simp
      then show ?thesis using Suc by (simp add: bit_drop_bit_eq)
    qed
  qed
qed

lemma crc_shift8_inj: "(crc_shift ^^ 8) a = (crc_shift ^^ 8) b \<Longrightarrow> a = b"
proof -
  have "inj crc_shift" by (rule injI) (rule crc_shift_inj)
  then have "inj (crc_shift ^^ 8)" by (rule inj_fn)
  then show "(crc_shift ^^ 8) a = (crc_shift ^^ 8) b \<Longrightarrow> a = b" by (rule injD)
qed

lemma crc_update_inj_state: "crc_update c b = crc_update c' b \<Longrightarrow> c = c'"
  unfolding crc_update_def by (blast dest: crc_shift8_inj xor_cancel_right)

lemma crc_update_inj_byte: "crc_update c b = crc_update c b' \<Longrightarrow> b = b'"
  unfolding crc_update_def by (blast dest: crc_shift8_inj xor_cancel_left ucast_8_32_inj)

lemma foldl_crc_update_inj:
  "foldl crc_update c bs = foldl crc_update c' bs \<Longrightarrow> c = c'"
  by (induction bs arbitrary: c c') (auto dest: crc_update_inj_state)

lemma uint_and_mask32: "uint (w :: 32 word) AND 0xFFFFFFFF = uint w"
proof -
  have "uint w AND mask 32 = uint w"
    unfolding take_bit_eq_mask [symmetric] by (rule bintr_uint) simp
  then show ?thesis by (simp add: mask_eq_exp_minus_1)
qed

lemma compute_crc_eq: "compute_crc type_bytes data = binascii_crc32 (type_bytes @ data)"
  by (simp add: compute_crc_def binascii_crc32_def uint_and_mask32)

lemma binascii_crc32_range: "0 \<le> binascii_crc32 bs" "binascii_crc32 bs < 2 ^ 32"
  using uint_bounded [of "foldl crc_update 0xFFFFFFFF bs XOR (0xFFFFFFFF :: 32 word)"]
  by (simp_all add: binascii_crc32_def)

lemma binascii_crc32_single_byte:
  assumes "j < length bs" "b \<noteq> bs ! j"
  shows "binascii_crc32 (bs[j := b]) \<noteq> binascii_crc32 bs"
proof
  assume eq: "binascii_crc32 (bs[j := b]) = binascii_crc32 bs"
  let ?c = "foldl crc_update 0xFFFFFFFF (take j bs)"
  have 1: "bs[j := b] = take j bs @ b # drop (Suc j) bs"
    using assms(1) by (rule upd_conv_take_nth_drop)
  have 2: "bs = take j bs @ bs ! j # drop (Suc j) bs"
    using assms(1) by (rule id_take_nth_drop)
  have "foldl crc_update 0xFFFFFFFF (bs[j := b]) XOR 0xFFFFFFFF
          = foldl crc_update 0xFFFFFFFF bs XOR 0xFFFFFFFF"
    using eq unfolding binascii_crc32_def by (rule word_uint_eqI)
  then have "foldl crc_update 0xFFFFFFFF (bs[j := b]) = foldl crc_update 0xFFFFFFFF bs"
    by (rule xor_cancel_right)
  then have "foldl crc_update (crc_update ?c b) (drop (Suc j) bs)
           = foldl crc_update (crc_update ?c (bs ! j)) (drop (Suc j) bs)"
    by (subst (asm) 1, subst (asm) (2) 2) simp
  then have "crc_update ?c b = crc_update ?c (bs ! j)" by (rule foldl_crc_update_inj)
  then have "b = bs ! j" by (rule crc_update_inj_byte)
  with assms(2) show False by simp
qed

lemma crc_update_unfold:
  "crc_update c b = crc_shift (crc_shift (crc_shift (crc_shift
     (crc_shift (crc_shift (crc_shift (crc_shift (c XOR ucast b))))))))"
  by (simp add: crc_update_def eval_nat_numeral)

text \<open>The check value of CRC-32: the CRC of the nine ASCII digits "123456789".\<close>

lemma crc32_check_value: "binascii_crc32 (ascii_bytes ''123456789'') = 0xCBF43926"
  by (simp add: ascii_bytes_def binascii_crc32_def crc_update_unfold crc_shift_def)

lemma crc_IEND: "binascii_crc32 [0x49, 0x45, 0x4E, 0x44] = 0xAE426082"
  by (simp add: binascii_crc32_def crc_update_unfold crc_shift_def)

section \<open>The reader on the wire format\<close>

lemma u32be_ne [simp]: "u32be n \<noteq> []"
  by (simp add: u32be_def)

lemma read_loop_Nil: "read_loop p [] acc = Inr acc"
  by (subst read_loop.simps) simp

lemma read_loop_wire_chunk:
  assumes "wire_ok rc"
  shows "read_loop p (wire_chunk rc @ rest) acc = read_loop p rest (acc @ [parsed rc])"
proof -
  obtain tb d where rc: "rc = (tb, d)" by (cases rc)
  have tb: "length tb = 4" and d: "int (length d) < 2 ^ 32" using assms by (simp_all add: wire_ok_def rc)
  have L: "from_bytes_big (u32be (int (length d))) = int (length d)"
    using d by (simp add: from_bytes_big_u32be)
  have C: "from_bytes_big (u32be (binascii_crc32 (tb @ d))) = binascii_crc32 (tb @ d)"
    by (rule from_bytes_big_u32be) (rule binascii_crc32_range)+
  show ?thesis
    by (subst read_loop.simps)
       (simp add: Let_def wire_chunk_def rc tb L C compute_crc_eq parsed_def)
qed

lemma read_loop_wire:
  "list_all wire_ok rcs \<Longrightarrow>
     read_loop p (concat (map wire_chunk rcs)) acc = Inr (acc @ map parsed rcs)"
  by (induction rcs arbitrary: acc) (simp_all add: read_loop_Nil read_loop_wire_chunk)

lemma read_loop_eof_length:
  "f \<noteq> [] \<Longrightarrow> length f < 4 \<Longrightarrow> read_loop p f acc = Inl (ValueError (msg_eof_length p))"
  by (subst read_loop.simps) (simp add: Let_def)

lemma read_loop_eof_type:
  "4 \<le> length f \<Longrightarrow> length f < 8 \<Longrightarrow> read_loop p f acc = Inl (ValueError (msg_eof_type p))"
  by (subst read_loop.simps) (auto simp add: Let_def)

lemma read_loop_eof_data:
  assumes "8 \<le> length f" "int (length f) < 8 + from_bytes_big (take 4 f)"
  shows "read_loop p f acc =
           Inl (ValueError (msg_eof_data (decode_ascii_replace (take 4 (drop 4 f))) p))"
proof -
  have "f \<noteq> []" using assms by auto
  moreover have "min (length f) 4 = 4" "min (length f - 4) 4 = 4" using assms by simp_all
  moreover have "int (min (length f - 8) (nat (from_bytes_big (take 4 f)))) \<noteq> from_bytes_big (take 4 f)"
    using assms by simp
  ultimately show ?thesis
    by (subst read_loop.simps) (simp add: Let_def)
qed

lemma read_loop_eof_crc:
  assumes "8 \<le> length f" "8 + from_bytes_big (take 4 f) \<le> int (length f)"
    "int (length f) < 12 + from_bytes_big (take 4 f)"
  shows "read_loop p f acc =
           Inl (ValueError (msg_eof_crc (decode_ascii_replace (take 4 (drop 4 f))) p))"
proof -
  have nn: "0 \<le> from_bytes_big (take 4 f)"
    using assms(1) by (intro from_bytes_big_range) simp
  have "f \<noteq> []" using assms by auto
  moreover have "min (length f) 4 = 4" "min (length f - 4) 4 = 4" using assms by simp_all
  moreover have "int (min (length f - 8) (nat (from_bytes_big (take 4 f)))) = from_bytes_big (take 4 f)"
    using assms nn by simp
  moreover have "min (length f - (8 + nat (from_bytes_big (take 4 f)))) 4 \<noteq> 4"
    using assms nn by simp
  ultimately show ?thesis
    by (subst read_loop.simps) (simp add: Let_def add.commute)
qed

lemma read_loop_Inr_step:
  assumes "read_loop p f acc = Inr r" "f \<noteq> []"
  shows "\<exists>rc rest. wire_ok rc \<and> f = wire_chunk rc @ rest
           \<and> read_loop p rest (acc @ [parsed rc]) = Inr r"
proof -
  define lb where "lb = take 4 f"
  define f1 where "f1 = drop 4 f"
  define len where "len = from_bytes_big lb"
  define tb where "tb = take 4 f1"
  define f2 where "f2 = drop 4 f1"
  define data where "data = take (nat len) f2"
  define f3 where "f3 = drop (nat len) f2"
  define cb where "cb = take 4 f3"
  define f4 where "f4 = drop 4 f3"
  have unf: "read_loop p f acc =
     (if lb = [] then Inr acc
      else if length lb \<noteq> 4 then Inl (ValueError (msg_eof_length p))
      else if length tb \<noteq> 4 then Inl (ValueError (msg_eof_type p))
      else if int (length data) \<noteq> len
        then Inl (ValueError (msg_eof_data (decode_ascii_replace tb) p))
      else if length cb \<noteq> 4 then Inl (ValueError (msg_eof_crc (decode_ascii_replace tb) p))
      else if from_bytes_big cb \<noteq> compute_crc tb data
        then Inl (ValueError (msg_crc_mismatch (decode_ascii_replace tb) p
                    (compute_crc tb data) (from_bytes_big cb)))
      else read_loop p f4
             (acc @ [\<lparr>ch_length = len, ch_type = decode_ascii_replace tb,
                       ch_data = data, ch_crc = from_bytes_big cb\<rparr>]))"
    unfolding lb_def f1_def len_def tb_def f2_def data_def f3_def cb_def f4_def
    by (subst read_loop.simps) (simp only: Let_def)
  have "lb \<noteq> []" using assms(2) by (simp add: lb_def)
  with assms(1) have lb: "length lb = 4" and tb: "length tb = 4"
    and data: "int (length data) = len" and cb: "length cb = 4"
    and crc: "from_bytes_big cb = compute_crc tb data"
    and rest: "read_loop p f4
             (acc @ [\<lparr>ch_length = len, ch_type = decode_ascii_replace tb,
                       ch_data = data, ch_crc = from_bytes_big cb\<rparr>]) = Inr r"
    unfolding unf by (simp_all split: if_splits)
  have f: "f = lb @ tb @ data @ cb @ f4"
    unfolding lb_def tb_def data_def cb_def f4_def f3_def f2_def f1_def
    by (simp only: append_take_drop_id)
  have "len < 2 ^ 32" unfolding len_def using lb by (rule from_bytes_big_range)
  then have ok: "wire_ok (tb, data)" using tb data by (simp add: wire_ok_def)
  have "u32be (int (length data)) = lb"
    unfolding data len_def using lb by (rule u32be_from_bytes_big)
  moreover have "u32be (binascii_crc32 (tb @ data)) = cb"
    using crc cb u32be_from_bytes_big [of cb] by (simp add: compute_crc_eq)
  ultimately have w: "wire_chunk (tb, data) = lb @ tb @ data @ cb"
    by (simp add: wire_chunk_def)
  have pc: "parsed (tb, data) = \<lparr>ch_length = len, ch_type = decode_ascii_replace tb,
                       ch_data = data, ch_crc = from_bytes_big cb\<rparr>"
    using data crc by (simp add: parsed_def compute_crc_eq)
  show ?thesis
    using ok f w rest pc by (intro exI [of _ "(tb, data)"] exI [of _ f4]) simp
qed

lemma length_wire_chunk: "wire_ok rc \<Longrightarrow> length (wire_chunk rc) = 12 + length (snd rc)"
  by (simp add: wire_ok_def wire_chunk_def)

lemma read_loop_Inr_wire:
  "read_loop p f acc = Inr r \<Longrightarrow>
     \<exists>rcs. list_all wire_ok rcs \<and> f = concat (map wire_chunk rcs) \<and> r = acc @ map parsed rcs"
proof (induction f arbitrary: acc rule: length_induct)
  case (1 f)
  show ?case
  proof (cases "f = []")
    case True
    with "1.prems" have "r = acc" by (simp add: read_loop_Nil)
    with True show ?thesis by (intro exI [of _ "[]"]) simp
  next
    case False
    with "1.prems" obtain rc rest where ok: "wire_ok rc" and f: "f = wire_chunk rc @ rest"
      and rest: "read_loop p rest (acc @ [parsed rc]) = Inr r"
      using read_loop_Inr_step by blast
    have "length rest < length f" using f ok by (simp add: length_wire_chunk)
    with "1.IH" rest obtain rcs where "list_all wire_ok rcs" "rest = concat (map wire_chunk rcs)"
      "r = (acc @ [parsed rc]) @ map parsed rcs"
      by blast
    with ok f show ?thesis by (intro exI [of _ "rc # rcs"]) simp
  qed
qed

lemma read_loop_wire_append:
  "list_all wire_ok rcs \<Longrightarrow>
     read_loop p (concat (map wire_chunk rcs) @ rest) acc = read_loop p rest (acc @ map parsed rcs)"
  by (induction rcs arbitrary: acc) (simp_all add: read_loop_wire_chunk)

lemma length_PNG_SIGNATURE [simp]: "length PNG_SIGNATURE = 8"
  by (simp add: PNG_SIGNATURE_def)

lemma read_png_chunks_wire:
  "read_png_chunks p (PNG_SIGNATURE @ f) = read_loop p f []"
  by (simp add: read_png_chunks_def)

lemma read_png_chunks_Inr_wire:
  assumes "read_png_chunks p s = Inr chunks"
  shows "\<exists>rcs. list_all wire_ok rcs \<and> s = PNG_SIGNATURE @ concat (map wire_chunk rcs)
           \<and> chunks = map parsed rcs"
proof -
  from assms have sig: "take 8 s = PNG_SIGNATURE" and loop: "read_loop p (drop 8 s) [] = Inr chunks"
    by (simp_all add: read_png_chunks_def Let_def split: if_splits)
  from loop obtain rcs where "list_all wire_ok rcs" "drop 8 s = concat (map wire_chunk rcs)"
    "chunks = map parsed rcs"
    using read_loop_Inr_wire by fastforce
  moreover have "s = take 8 s @ drop 8 s" by simp
  ultimately show ?thesis using sig by metis
qed

lemma length_concat_wire:
  "list_all wire_ok rcs \<Longrightarrow>
     length (concat (map wire_chunk rcs)) = sum_list (map (\<lambda>rc. 12 + length (snd rc)) rcs)"
  by (induction rcs) (simp_all add: length_wire_chunk)

lemma list_all_take: "list_all P xs \<Longrightarrow> list_all P (take k xs)"
  by (auto simp: list_all_iff dest: in_set_takeD)

lemma chunk_offset_wire:
  assumes "list_all wire_ok rcs"
  shows "chunk_offset (map parsed rcs) k = 8 + length (concat (map wire_chunk (take k rcs)))"
proof -
  have "list_all wire_ok (take k rcs)" using assms by (rule list_all_take)
  then show ?thesis
    by (simp add: chunk_offset_def length_concat_wire take_map comp_def parsed_def)
qed

lemma concat_wire_split:
  assumes "k < length rcs"
  shows "concat (map wire_chunk rcs) =
           concat (map wire_chunk (take k rcs)) @ wire_chunk (rcs ! k)
             @ concat (map wire_chunk (drop (Suc k) rcs))"
proof -
  have "rcs = take k rcs @ rcs ! k # drop (Suc k) rcs" using assms by (rule id_take_nth_drop)
  then have "concat (map wire_chunk rcs)
               = concat (map wire_chunk (take k rcs @ rcs ! k # drop (Suc k) rcs))"
    by simp
  then show ?thesis by simp
qed

text \<open>What a successful read says about the chunk with index k and its place in the file.\<close>

lemma read_png_chunks_at:
  assumes "read_png_chunks p s = Inr chunks" "k < length chunks"
  shows "\<exists>tb d pre post. length tb = 4 \<and> int (length d) < 2 ^ 32
           \<and> chunks ! k = parsed (tb, d)
           \<and> length pre = chunk_offset chunks k
           \<and> take 8 pre = PNG_SIGNATURE
           \<and> read_loop p (drop 8 pre) [] = Inr (take k chunks)
           \<and> s = pre @ u32be (int (length d)) @ tb @ d @ u32be (binascii_crc32 (tb @ d)) @ post"
proof -
  from assms(1) obtain rcs where ok: "list_all wire_ok rcs"
    and s: "s = PNG_SIGNATURE @ concat (map wire_chunk rcs)" and ch: "chunks = map parsed rcs"
    using read_png_chunks_Inr_wire by blast
  have k: "k < length rcs" using assms(2) ch by simp
  obtain tb d where rc: "rcs ! k = (tb, d)" by (cases "rcs ! k")
  define pre where "pre = PNG_SIGNATURE @ concat (map wire_chunk (take k rcs))"
  define post where "post = concat (map wire_chunk (drop (Suc k) rcs))"
  have "wire_ok (rcs ! k)" using ok k by (simp add: list_all_length)
  then have 1: "length tb = 4" "int (length d) < 2 ^ 32" by (simp_all add: rc wire_ok_def)
  have 2: "chunks ! k = parsed (tb, d)" using ch k rc by simp
  have 3: "length pre = chunk_offset chunks k"
    unfolding pre_def ch chunk_offset_wire [OF ok] by simp
  have 4: "take 8 pre = PNG_SIGNATURE" by (simp add: pre_def)
  have "list_all wire_ok (take k rcs)" using ok by (rule list_all_take)
  then have 5: "read_loop p (drop 8 pre) [] = Inr (take k chunks)"
    by (simp add: pre_def read_loop_wire ch take_map)
  have 6: "s = pre @ u32be (int (length d)) @ tb @ d @ u32be (binascii_crc32 (tb @ d)) @ post"
    unfolding s pre_def post_def concat_wire_split [OF k] rc by (simp add: wire_chunk_def)
  from 1 2 3 4 5 6 show ?thesis by blast
qed

lemma read_loop_bad_crc:
  assumes "length tb = 4" "int (length d) < 2 ^ 32" "0 \<le> c" "c < 2 ^ 32"
    "c \<noteq> binascii_crc32 (tb @ d)"
  shows "read_loop p (u32be (int (length d)) @ tb @ d @ u32be c @ rest) acc =
           Inl (ValueError (msg_crc_mismatch (decode_ascii_replace tb) p (compute_crc tb d) c))"
proof -
  have L: "from_bytes_big (u32be (int (length d))) = int (length d)"
    using assms(2) by (simp add: from_bytes_big_u32be)
  have C: "from_bytes_big (u32be c) = c"
    using assms(3,4) by (rule from_bytes_big_u32be)
  show ?thesis
    using assms(1,5)
    by (subst read_loop.simps) (simp add: Let_def L C compute_crc_eq)
qed

lemma decode_byte_eq:
  fixes b :: byte
  assumes "n < 128"
  shows "((if b < 0x80 then unat b else 0xFFFD) = n) = (b = of_nat n)"
proof
  assume "(if b < 0x80 then unat b else 0xFFFD) = n"
  with assms have "unat b = n" by (simp split: if_splits)
  then show "b = of_nat n" by auto
next
  assume b: "b = of_nat n"
  have "unat (of_nat n :: byte) = n" using assms by (simp add: unat_of_nat)
  then show "(if b < 0x80 then unat b else 0xFFFD) = n"
    using assms b by (simp add: word_less_nat_alt)
qed

lemma decode_eq_ustr:
  "list_all (\<lambda>c. of_char c < (128 :: nat)) s \<Longrightarrow>
     (decode_ascii_replace tb = ustr s) = (tb = ascii_bytes s)"
proof (induction s arbitrary: tb)
  case Nil
  then show ?case by (simp add: decode_ascii_replace_def ustr_def ascii_bytes_def)
next
  case (Cons c s)
  then have c: "of_char c < (128 :: nat)" and s: "list_all (\<lambda>c. of_char c < (128 :: nat)) s"
    by simp_all
  have oc: "(of_nat (of_char c) :: byte) = of_char c" by (simp add: of_nat_of_char)
  show ?case
  proof (cases tb)
    case Nil
    then show ?thesis by (simp add: decode_ascii_replace_def ustr_def ascii_bytes_def)
  next
    case (Cons b tb')
    have "(decode_ascii_replace tb' = ustr s) = (tb' = ascii_bytes s)"
      using s by (rule Cons.IH)
    then show ?thesis
      using decode_byte_eq [OF c, of b] oc
      by (simp add: Cons decode_ascii_replace_def ustr_def ascii_bytes_def)
  qed
qed

lemma decode_in_CORE: "(decode_ascii_replace tb \<in> CORE_CHUNKS) = (tb \<in> CORE_CHUNKS_RAW)"
  by (simp add: CORE_CHUNKS_def CORE_CHUNKS_RAW_def decode_eq_ustr)

lemma decode_in_DROP: "(decode_ascii_replace tb \<in> DROP_CHUNKS) = (tb \<in> DROP_CHUNKS_RAW)"
  by (simp add: DROP_CHUNKS_def DROP_CHUNKS_RAW_def decode_eq_ustr)

section \<open>The writer and the filter: auxiliary facts\<close>

lemma encode_decode_ascii:
  assumes "list_all (\<lambda>c. c < 128) (decode_ascii_replace tb)"
  shows "encode_ascii (decode_ascii_replace tb) = Inr tb"
proof -
  have "map of_nat (decode_ascii_replace tb) = tb"
    using assms by (induction tb) (auto simp: decode_ascii_replace_def split: if_splits)
  with assms show ?thesis by (simp add: encode_ascii_def)
qed

lemma parsed_simps [simp]:
  "ch_length (parsed rc) = int (length (snd rc))"
  "ch_type (parsed rc) = decode_ascii_replace (fst rc)"
  "ch_data (parsed rc) = snd rc"
  "ch_crc (parsed rc) = binascii_crc32 (fst rc @ snd rc)"
  by (simp_all add: parsed_def)

lemma write_loop_parsed:
  assumes "list_all wire_ok rcs"
    "list_all (\<lambda>ch. list_all (\<lambda>c. c < 128) (ch_type ch)) (map parsed rcs)"
  shows "write_loop (map parsed rcs) f = Inr (f @ concat (map wire_chunk rcs))"
  using assms
proof (induction rcs arbitrary: f)
  case Nil
  then show ?case by simp
next
  case (Cons rc rcs)
  have l: "to_bytes4 (int (length (snd rc))) = Inr (u32be (int (length (snd rc))))"
    using Cons.prems(1) by (intro to_bytes4_u32be) (simp_all add: wire_ok_def)
  have c: "to_bytes4 (binascii_crc32 (fst rc @ snd rc)) = Inr (u32be (binascii_crc32 (fst rc @ snd rc)))"
    by (intro to_bytes4_u32be binascii_crc32_range)
  have t: "encode_ascii (decode_ascii_replace (fst rc)) = Inr (fst rc)"
    using Cons.prems(2) by (intro encode_decode_ascii) simp
  have "write_loop (map parsed rcs) g = Inr (g @ concat (map wire_chunk rcs))" for g
    using Cons.prems by (intro Cons.IH) simp_all
  then show ?case by (simp add: l c t wire_chunk_def [of rc])
qed

lemma write_loop_size:
  assumes "list_all (\<lambda>ch. ch_length ch = int (length (ch_data ch)) \<and> length (ch_type ch) = 4
              \<and> list_all (\<lambda>c. c < 128) (ch_type ch) \<and> ch_length ch < 2 ^ 32
              \<and> 0 \<le> ch_crc ch \<and> ch_crc ch < 2 ^ 32) chunks"
  shows "\<exists>g. write_loop chunks f = Inr g
           \<and> int (length g) = int (length f) + sum_list (map (\<lambda>ch. 12 + ch_length ch) chunks)"
  using assms
proof (induction chunks arbitrary: f)
  case Nil
  then show ?case by simp
next
  case (Cons ch chunks)
  then have l: "to_bytes4 (ch_length ch) = Inr (u32be (ch_length ch))"
    and c: "to_bytes4 (ch_crc ch) = Inr (u32be (ch_crc ch))"
    and t: "encode_ascii (ch_type ch) = Inr (map of_nat (ch_type ch))"
    and n: "ch_length ch = int (length (ch_data ch))" "length (ch_type ch) = 4"
    by (simp_all add: to_bytes4_u32be encode_ascii_def)
  let ?f' = "f @ u32be (ch_length ch) @ map of_nat (ch_type ch) @ ch_data ch @ u32be (ch_crc ch)"
  from Cons obtain g where "write_loop chunks ?f' = Inr g"
    "int (length g) = int (length ?f') + sum_list (map (\<lambda>ch. 12 + ch_length ch) chunks)"
    by fastforce
  then show ?case unfolding write_loop.simps l c t using n by simp
qed

lemma filter_loop_eq:
  "filter_loop chunks kept removed =
     (kept @ filter (\<lambda>ch. ch_type ch \<in> CORE_CHUNKS \<or> ch_type ch \<notin> DROP_CHUNKS) chunks,
      removed + int (length (filter (\<lambda>ch. ch_type ch \<notin> CORE_CHUNKS \<and> ch_type ch \<in> DROP_CHUNKS) chunks)))"
  by (induction chunks arbitrary: kept removed) auto

lemma core_drop_disjoint: "t \<in> CORE_CHUNKS \<Longrightarrow> t \<notin> DROP_CHUNKS"
  by (auto simp: CORE_CHUNKS_def DROP_CHUNKS_def ustr_def)

lemma filter_chunks_eq:
  "filter_chunks chunks =
     (filter (\<lambda>ch. ch_type ch \<notin> DROP_CHUNKS) chunks,
      int (length (filter (\<lambda>ch. ch_type ch \<in> DROP_CHUNKS) chunks)))"
proof -
  have k: "(\<lambda>ch. ch_type ch \<in> CORE_CHUNKS \<or> ch_type ch \<notin> DROP_CHUNKS)
             = (\<lambda>ch. ch_type ch \<notin> DROP_CHUNKS)"
    using core_drop_disjoint by auto
  have d: "(\<lambda>ch. ch_type ch \<notin> CORE_CHUNKS \<and> ch_type ch \<in> DROP_CHUNKS)
             = (\<lambda>ch. ch_type ch \<in> DROP_CHUNKS)"
    using core_drop_disjoint by auto
  show ?thesis
    unfolding filter_chunks_def filter_loop_eq k d by simp
qed

section \<open>The example files\<close>

lemma crc_IDAT: "binascii_crc32 [0x49, 0x44, 0x41, 0x54] = 0x35AF061E"
  by (simp add: binascii_crc32_def crc_update_unfold crc_shift_def)

lemma crc_tEXt_A: "binascii_crc32 [0x74, 0x45, 0x58, 0x74, 0x41] = 0x4E9DABE1"
  by (simp add: binascii_crc32_def crc_update_unfold crc_shift_def)

lemma crc_tEXt_B: "binascii_crc32 [0x74, 0x45, 0x58, 0x74, 0x42] = 0xD794FA5B"
  by (simp add: binascii_crc32_def crc_update_unfold crc_shift_def)

lemma crc_80ABC: "binascii_crc32 [0x80, 0x41, 0x42, 0x43] = 0x90DFB37D"
  by (simp add: binascii_crc32_def crc_update_unfold crc_shift_def)

lemma crc_FFNGx: "binascii_crc32 [0xFF, 0x4E, 0x47, 0x78, 0x01] = 0x92B947B2"
  by (simp add: binascii_crc32_def crc_update_unfold crc_shift_def)

lemma read_png_chunks_wire_list:
  "list_all wire_ok rcs \<Longrightarrow>
     read_png_chunks p (PNG_SIGNATURE @ concat (map wire_chunk rcs)) = Inr (map parsed rcs)"
  by (simp add: read_png_chunks_wire read_loop_wire)

lemma wire_IEND: "wire_chunk ([0x49, 0x45, 0x4E, 0x44], []) = bytes_IEND"
  by (simp add: wire_chunk_def u32be_def crc_IEND bytes_IEND_def)

lemma wire_IDAT: "wire_chunk ([0x49, 0x44, 0x41, 0x54], []) = bytes_IDAT"
  by (simp add: wire_chunk_def u32be_def crc_IDAT bytes_IDAT_def)

lemma wire_tEXt: "wire_chunk ([0x74, 0x45, 0x58, 0x74], [0x41]) = bytes_tEXt"
  by (simp add: wire_chunk_def u32be_def crc_tEXt_A bytes_tEXt_def)

lemma parsed_IEND: "parsed ([0x49, 0x45, 0x4E, 0x44], []) = chunk_IEND"
  by (simp add: parsed_def crc_IEND chunk_IEND_def decode_ascii_replace_def ustr_def)

lemma parsed_IDAT: "parsed ([0x49, 0x44, 0x41, 0x54], []) = chunk_IDAT"
  by (simp add: parsed_def crc_IDAT chunk_IDAT_def decode_ascii_replace_def ustr_def)

lemma parsed_tEXt: "parsed ([0x74, 0x45, 0x58, 0x74], [0x41]) = chunk_tEXt"
  by (simp add: parsed_def crc_tEXt_A chunk_tEXt_def decode_ascii_replace_def ustr_def)

lemma read_IEND: "read_png_chunks p (PNG_SIGNATURE @ bytes_IEND) = Inr [chunk_IEND]"
  using read_png_chunks_wire_list [of "[([0x49, 0x45, 0x4E, 0x44], [])]" p]
  by (simp add: wire_ok_def wire_IEND parsed_IEND)

lemma read_IDAT: "read_png_chunks p (PNG_SIGNATURE @ bytes_IDAT) = Inr [chunk_IDAT]"
  using read_png_chunks_wire_list [of "[([0x49, 0x44, 0x41, 0x54], [])]" p]
  by (simp add: wire_ok_def wire_IDAT parsed_IDAT)

lemma read_IEND_IDAT:
  "read_png_chunks p (PNG_SIGNATURE @ bytes_IEND @ bytes_IDAT) = Inr [chunk_IEND, chunk_IDAT]"
  using read_png_chunks_wire_list
    [of "[([0x49, 0x45, 0x4E, 0x44], []), ([0x49, 0x44, 0x41, 0x54], [])]" p]
  by (simp add: wire_ok_def wire_IEND parsed_IEND wire_IDAT parsed_IDAT)

lemma read_tEXt: "read_png_chunks p (PNG_SIGNATURE @ bytes_tEXt) = Inr [chunk_tEXt]"
  using read_png_chunks_wire_list [of "[([0x74, 0x45, 0x58, 0x74], [0x41])]" p]
  by (simp add: wire_ok_def wire_tEXt parsed_tEXt)

lemma crc_mismatch_message_example:
  "msg_crc_mismatch (ustr ''tEXt'') (ustr ''a.png'') 0xD794FA5B 0x4E9DABE1
     = ustr ''CRC mismatch for chunk tEXt in a.png: expected 0xD794FA5B, got 0x4E9DABE1''"
  by (simp add: msg_crc_mismatch_def format_08X_def hex_digits.simps hex_char_def ustr_def)

lemma read_png_chunks_append:
  assumes "read_png_chunks p s0 = Inr chunks0"
  shows "read_png_chunks p (s0 @ t) = read_loop p t chunks0"
proof -
  from assms obtain rcs where "list_all wire_ok rcs"
    "s0 = PNG_SIGNATURE @ concat (map wire_chunk rcs)" "chunks0 = map parsed rcs"
    using read_png_chunks_Inr_wire by blast
  then show ?thesis by (simp add: read_png_chunks_wire read_loop_wire_append)
qed

text \<open>
  On a file that is read successfully and whose chunk types are ASCII, the writer writes
  the bytes that were read.
\<close>

lemma write_png_chunks_after_read_ascii:
  assumes "read_png_chunks p s = Inr chunks"
    "list_all (\<lambda>ch. list_all (\<lambda>c. c < 128) (ch_type ch)) chunks"
  shows "write_png_chunks chunks = Inr (s, int (length s))"
proof -
  from assms(1) obtain rcs where ok: "list_all wire_ok rcs"
    and s: "s = PNG_SIGNATURE @ concat (map wire_chunk rcs)" and ch: "chunks = map parsed rcs"
    using read_png_chunks_Inr_wire by blast
  have "write_loop chunks PNG_SIGNATURE = Inr s"
    unfolding ch s using ok assms(2) [unfolded ch] by (rule write_loop_parsed)
  then show ?thesis by (simp add: write_png_chunks_def)
qed

lemma read_tEXt_IEND:
  "read_png_chunks p (PNG_SIGNATURE @ bytes_tEXt @ bytes_IEND) = Inr [chunk_tEXt, chunk_IEND]"
  using read_png_chunks_wire_list
    [of "[([0x74, 0x45, 0x58, 0x74], [0x41]), ([0x49, 0x45, 0x4E, 0x44], [])]" p]
  by (simp add: wire_ok_def wire_tEXt parsed_tEXt wire_IEND parsed_IEND)

lemma read_png_chunks_fields:
  assumes "read_png_chunks p s = Inr chunks0" "ch \<in> set chunks0"
  shows "ch_length ch = int (length (ch_data ch)) \<and> length (ch_type ch) = 4
       \<and> ch_length ch < 2 ^ 32 \<and> 0 \<le> ch_crc ch \<and> ch_crc ch < 2 ^ 32"
proof -
  from assms(1) obtain rcs where ok: "list_all wire_ok rcs" and ch0: "chunks0 = map parsed rcs"
    using read_png_chunks_Inr_wire by blast
  from assms(2) ch0 obtain rc where rc: "rc \<in> set rcs" and ch: "ch = parsed rc" by auto
  from ok rc have "wire_ok rc" by (simp add: list_all_iff)
  then show ?thesis
    unfolding ch using binascii_crc32_range [of "fst rc @ snd rc"]
    by (simp add: wire_ok_def decode_ascii_replace_def)
qed

section \<open>C1: round trip\<close>

text \<open>
  C1. Round trip: for every file content that \<open>read_png_chunks\<close> parses successfully,
  \<open>write_png_chunks\<close> on the full chunk list is to write a file identical to the input.
  The code breaks this at the file made of the signature and one chunk with the raw type
  0xFF 0x4E 0x47 0x78, the data byte 0x01 and the right CRC 0x92B947B2: the reader accepts
  it and, against the comment \<open>type: str  # 4-char ASCII\<close> of the field, builds a chunk
  whose type holds U+FFFD; the writer then raises UnicodeEncodeError at
  \<open>ch.type.encode("ascii")\<close> and does not return the file that was read.
\<close>

theorem round_trip_fails_on_non_ascii_type:
  "read_png_chunks (ustr ''a.png'')
     (PNG_SIGNATURE @ [0, 0, 0, 1, 0xFF, 0x4E, 0x47, 0x78, 0x01, 0x92, 0xB9, 0x47, 0xB2])
     = Inr [\<lparr>ch_length = 1, ch_type = [0xFFFD, 0x4E, 0x47, 0x78], ch_data = [0x01],
             ch_crc = 0x92B947B2\<rparr>]
   \<and> write_png_chunks [\<lparr>ch_length = 1, ch_type = [0xFFFD, 0x4E, 0x47, 0x78], ch_data = [0x01],
                         ch_crc = 0x92B947B2\<rparr>]
     = Inl UnicodeEncodeError
   \<and> write_png_chunks [\<lparr>ch_length = 1, ch_type = [0xFFFD, 0x4E, 0x47, 0x78], ch_data = [0x01],
                         ch_crc = 0x92B947B2\<rparr>]
     \<noteq> Inr (PNG_SIGNATURE @ [0, 0, 0, 1, 0xFF, 0x4E, 0x47, 0x78, 0x01, 0x92, 0xB9, 0x47, 0xB2], 21)"
proof -
  have w: "wire_chunk ([0xFF, 0x4E, 0x47, 0x78], [0x01])
             = [0, 0, 0, 1, 0xFF, 0x4E, 0x47, 0x78, 0x01, 0x92, 0xB9, 0x47, 0xB2]"
    by (simp add: wire_chunk_def u32be_def crc_FFNGx)
  have c: "parsed ([0xFF, 0x4E, 0x47, 0x78], [0x01])
             = \<lparr>ch_length = 1, ch_type = [0xFFFD, 0x4E, 0x47, 0x78], ch_data = [0x01],
                ch_crc = 0x92B947B2\<rparr>"
    by (simp add: parsed_def crc_FFNGx decode_ascii_replace_def)
  have 1: "read_png_chunks (ustr ''a.png'')
     (PNG_SIGNATURE @ [0, 0, 0, 1, 0xFF, 0x4E, 0x47, 0x78, 0x01, 0x92, 0xB9, 0x47, 0xB2])
     = Inr [\<lparr>ch_length = 1, ch_type = [0xFFFD, 0x4E, 0x47, 0x78], ch_data = [0x01],
             ch_crc = 0x92B947B2\<rparr>]"
    using read_png_chunks_wire_list [of "[([0xFF, 0x4E, 0x47, 0x78], [0x01])]" "ustr ''a.png''"]
    by (simp add: wire_ok_def w c)
  have 2: "write_png_chunks [\<lparr>ch_length = 1, ch_type = [0xFFFD, 0x4E, 0x47, 0x78], ch_data = [0x01],
                         ch_crc = 0x92B947B2\<rparr>]
     = Inl UnicodeEncodeError"
    by (simp add: write_png_chunks_def to_bytes4_def encode_ascii_def)
  from 1 2 show ?thesis by simp
qed

section \<open>C2: filter classification\<close>

text \<open>
  C2. For every chunk list, \<open>filter_chunks\<close> keeps, in their original order and unchanged,
  exactly the chunks whose type is in \<open>CORE_CHUNKS\<close> or in neither set; a chunk of the
  input is missing from the kept list exactly when its type is in \<open>DROP_CHUNKS\<close>; the
  removed count is the number of chunks whose type is in \<open>DROP_CHUNKS\<close>; and a list with
  the types IHDR, tEXt, IDAT, tIME, IEND gives the first, third and fifth chunk and the
  count 2.
\<close>

theorem filter_chunks_classification:
  "fst (filter_chunks chunks) =
     filter (\<lambda>ch. ch_type ch \<in> CORE_CHUNKS
                  \<or> (ch_type ch \<notin> CORE_CHUNKS \<and> ch_type ch \<notin> DROP_CHUNKS)) chunks
   \<and> (\<forall>ch \<in> set chunks. ch \<notin> set (fst (filter_chunks chunks)) \<longleftrightarrow> ch_type ch \<in> DROP_CHUNKS)
   \<and> snd (filter_chunks chunks) = int (length (filter (\<lambda>ch. ch_type ch \<in> DROP_CHUNKS) chunks))
   \<and> filter_chunks [c1\<lparr>ch_type := ustr ''IHDR''\<rparr>, c2\<lparr>ch_type := ustr ''tEXt''\<rparr>,
                     c3\<lparr>ch_type := ustr ''IDAT''\<rparr>, c4\<lparr>ch_type := ustr ''tIME''\<rparr>,
                     c5\<lparr>ch_type := ustr ''IEND''\<rparr>]
       = ([c1\<lparr>ch_type := ustr ''IHDR''\<rparr>, c3\<lparr>ch_type := ustr ''IDAT''\<rparr>,
           c5\<lparr>ch_type := ustr ''IEND''\<rparr>], 2)"
proof -
  have k: "(\<lambda>ch. ch_type ch \<in> CORE_CHUNKS \<or> (ch_type ch \<notin> CORE_CHUNKS \<and> ch_type ch \<notin> DROP_CHUNKS))
             = (\<lambda>ch. ch_type ch \<notin> DROP_CHUNKS)"
    using core_drop_disjoint by auto
  have 1: "fst (filter_chunks chunks) =
     filter (\<lambda>ch. ch_type ch \<in> CORE_CHUNKS
                  \<or> (ch_type ch \<notin> CORE_CHUNKS \<and> ch_type ch \<notin> DROP_CHUNKS)) chunks"
    unfolding k by (simp add: filter_chunks_eq)
  have 2: "\<forall>ch \<in> set chunks. ch \<notin> set (fst (filter_chunks chunks)) \<longleftrightarrow> ch_type ch \<in> DROP_CHUNKS"
    by (simp add: filter_chunks_eq)
  have 3: "snd (filter_chunks chunks) = int (length (filter (\<lambda>ch. ch_type ch \<in> DROP_CHUNKS) chunks))"
    by (simp add: filter_chunks_eq)
  have 4: "filter_chunks [c1\<lparr>ch_type := ustr ''IHDR''\<rparr>, c2\<lparr>ch_type := ustr ''tEXt''\<rparr>,
                     c3\<lparr>ch_type := ustr ''IDAT''\<rparr>, c4\<lparr>ch_type := ustr ''tIME''\<rparr>,
                     c5\<lparr>ch_type := ustr ''IEND''\<rparr>]
       = ([c1\<lparr>ch_type := ustr ''IHDR''\<rparr>, c3\<lparr>ch_type := ustr ''IDAT''\<rparr>,
           c5\<lparr>ch_type := ustr ''IEND''\<rparr>], 2)"
    by (simp add: filter_chunks_def CORE_CHUNKS_def DROP_CHUNKS_def ustr_def)
  from 1 2 3 4 show ?thesis by blast
qed

theorem filter_chunks_classification_witness:
  "\<lparr>ch_length = 0, ch_type = ustr ''tIME'', ch_data = [], ch_crc = 0\<rparr>
     \<notin> set (fst (filter_chunks
          [\<lparr>ch_length = 0, ch_type = ustr ''IEND'', ch_data = [], ch_crc = 2923585666\<rparr>,
           \<lparr>ch_length = 0, ch_type = ustr ''tIME'', ch_data = [], ch_crc = 0\<rparr>]))
   \<and> \<lparr>ch_length = 0, ch_type = ustr ''IEND'', ch_data = [], ch_crc = 2923585666\<rparr>
     \<in> set (fst (filter_chunks
          [\<lparr>ch_length = 0, ch_type = ustr ''IEND'', ch_data = [], ch_crc = 2923585666\<rparr>,
           \<lparr>ch_length = 0, ch_type = ustr ''tIME'', ch_data = [], ch_crc = 0\<rparr>]))"
  using filter_chunks_classification
    [where chunks = "[\<lparr>ch_length = 0, ch_type = ustr ''IEND'', ch_data = [], ch_crc = 2923585666\<rparr>,
          \<lparr>ch_length = 0, ch_type = ustr ''tIME'', ch_data = [], ch_crc = 0\<rparr>]",
     THEN conjunct2, THEN conjunct1]
  by (simp add: DROP_CHUNKS_def ustr_def)

section \<open>C3: CRC detection\<close>

text \<open>
  C3. Let a file be read successfully into \<open>chunks\<close>. Changing the byte at index \<open>j\<close> of
  the data of the chunk with index \<open>k\<close> (file position \<open>chunk_offset chunks k + 8 + j\<close>) to
  a different value \<open>b\<close>, with every other byte and so the stored CRC unchanged, makes
  \<open>read_png_chunks\<close> raise the ValueError of the CRC check (the error kind that the
  specification calls IntegrityError). Its message carries the expected CRC, computed over
  the raw type bytes and the changed data, and the stored CRC, which differ; no chunk list
  is returned.
\<close>

theorem crc_detection:
  assumes rd: "read_png_chunks p s = Inr chunks" and k: "k < length chunks"
    and j: "j < length (ch_data (chunks ! k))"
    and b: "b \<noteq> s ! (chunk_offset chunks k + 8 + j)"
  shows "read_png_chunks p (s[chunk_offset chunks k + 8 + j := b]) =
           Inl (ValueError (msg_crc_mismatch (ch_type (chunks ! k)) p
                  (compute_crc (take 4 (drop (chunk_offset chunks k + 4) s))
                     ((ch_data (chunks ! k))[j := b]))
                  (ch_crc (chunks ! k))))
         \<and> compute_crc (take 4 (drop (chunk_offset chunks k + 4) s))
              ((ch_data (chunks ! k))[j := b]) \<noteq> ch_crc (chunks ! k)"
proof -
  from read_png_chunks_at [OF rd k] obtain tb d pre post where tb: "length tb = 4"
    and d: "int (length d) < 2 ^ 32"
    and c: "chunks ! k = parsed (tb, d)" and pre: "length pre = chunk_offset chunks k"
    and sig: "take 8 pre = PNG_SIGNATURE"
    and before: "read_loop p (drop 8 pre) [] = Inr (take k chunks)"
    and s: "s = pre @ u32be (int (length d)) @ tb @ d @ u32be (binascii_crc32 (tb @ d)) @ post"
    by blast
  let ?crc = "binascii_crc32 (tb @ d)"
  have jd: "j < length d" using j c by (simp add: parsed_def)
  have "drop (chunk_offset chunks k + 4) s = tb @ d @ u32be ?crc @ post"
    unfolding s pre [symmetric] by (simp add: add.commute)
  then have t: "take 4 (drop (chunk_offset chunks k + 4) s) = tb" using tb by simp
  have at: "s ! (chunk_offset chunks k + 8 + j) = d ! j"
    unfolding s pre [symmetric] using tb jd by (simp add: nth_append)
  have upd: "s[chunk_offset chunks k + 8 + j := b]
               = pre @ u32be (int (length (d[j := b]))) @ tb @ d[j := b] @ u32be ?crc @ post"
    unfolding s pre [symmetric] using tb jd by (simp add: list_update_append)
  have "(tb @ d)[4 + j := b] = tb @ d[j := b]" using tb by (simp add: list_update_append)
  moreover have "binascii_crc32 ((tb @ d)[4 + j := b]) \<noteq> binascii_crc32 (tb @ d)"
    using tb jd b at by (intro binascii_crc32_single_byte) (simp_all add: nth_append)
  ultimately have ne: "?crc \<noteq> binascii_crc32 (tb @ d[j := b])" by simp
  obtain rcs where ok: "list_all wire_ok rcs"
    and w: "drop 8 pre = concat (map wire_chunk rcs)" and tk: "take k chunks = map parsed rcs"
    using read_loop_Inr_wire [OF before] by auto
  have pre_eq: "pre = PNG_SIGNATURE @ concat (map wire_chunk rcs)"
    using sig w append_take_drop_id [of 8 pre] by simp
  have "read_png_chunks p (s[chunk_offset chunks k + 8 + j := b])
          = read_loop p (u32be (int (length (d[j := b]))) @ tb @ d[j := b] @ u32be ?crc @ post)
              (map parsed rcs)"
    unfolding upd pre_eq using ok
    by (simp add: read_png_chunks_wire read_loop_wire_append)
  also have "\<dots> = Inl (ValueError (msg_crc_mismatch (decode_ascii_replace tb) p
                        (compute_crc tb (d[j := b])) ?crc))"
    using tb d ne binascii_crc32_range [of "tb @ d"] by (intro read_loop_bad_crc) simp_all
  finally show ?thesis
    unfolding t c using ne by (simp add: parsed_def compute_crc_eq)
qed

theorem crc_detection_witness:
  "read_png_chunks (ustr ''a.png'') (PNG_SIGNATURE @ bytes_tEXt) = Inr [chunk_tEXt]
   \<and> (0 :: nat) < length [chunk_tEXt] \<and> (0 :: nat) < length (ch_data ([chunk_tEXt] ! 0))
   \<and> 0x42 \<noteq> (PNG_SIGNATURE @ bytes_tEXt) ! (chunk_offset [chunk_tEXt] 0 + 8 + 0)
   \<and> (PNG_SIGNATURE @ bytes_tEXt)[chunk_offset [chunk_tEXt] 0 + 8 + 0 := 0x42]
       = PNG_SIGNATURE @ [0, 0, 0, 1, 0x74, 0x45, 0x58, 0x74, 0x42, 0x4E, 0x9D, 0xAB, 0xE1]
   \<and> read_png_chunks (ustr ''a.png'')
        (PNG_SIGNATURE @ [0, 0, 0, 1, 0x74, 0x45, 0x58, 0x74, 0x42, 0x4E, 0x9D, 0xAB, 0xE1])
       = Inl (ValueError
           (ustr ''CRC mismatch for chunk tEXt in a.png: expected 0xD794FA5B, got 0x4E9DABE1''))"
proof -
  have rd: "read_png_chunks (ustr ''a.png'') (PNG_SIGNATURE @ bytes_tEXt) = Inr [chunk_tEXt]"
    by (rule read_tEXt)
  have k: "(0 :: nat) < length [chunk_tEXt]" by simp
  have j: "(0 :: nat) < length (ch_data ([chunk_tEXt] ! 0))" by (simp add: chunk_tEXt_def)
  have off: "chunk_offset [chunk_tEXt] 0 + 8 + 0 = 8 + 8" by (simp add: chunk_offset_def)
  have b: "0x42 \<noteq> (PNG_SIGNATURE @ bytes_tEXt) ! (chunk_offset [chunk_tEXt] 0 + 8 + 0)"
    unfolding off by (simp add: nth_append bytes_tEXt_def)
  have u: "(PNG_SIGNATURE @ bytes_tEXt)[chunk_offset [chunk_tEXt] 0 + 8 + 0 := 0x42]
       = PNG_SIGNATURE @ [0, 0, 0, 1, 0x74, 0x45, 0x58, 0x74, 0x42, 0x4E, 0x9D, 0xAB, 0xE1]"
    unfolding off by (simp add: list_update_append bytes_tEXt_def)
  have t: "take 4 (drop (chunk_offset [chunk_tEXt] 0 + 4) (PNG_SIGNATURE @ bytes_tEXt))
             = [0x74, 0x45, 0x58, 0x74]"
    by (simp add: chunk_offset_def bytes_tEXt_def)
  have e: "compute_crc [0x74, 0x45, 0x58, 0x74] [0x42] = 0xD794FA5B"
    by (simp add: compute_crc_eq crc_tEXt_B)
  from crc_detection [OF rd k j b] have
    "read_png_chunks (ustr ''a.png'')
        (PNG_SIGNATURE @ [0, 0, 0, 1, 0x74, 0x45, 0x58, 0x74, 0x42, 0x4E, 0x9D, 0xAB, 0xE1])
       = Inl (ValueError (msg_crc_mismatch (ustr ''tEXt'') (ustr ''a.png'') 0xD794FA5B 0x4E9DABE1))"
    unfolding u t by (simp add: chunk_tEXt_def e)
  then have "read_png_chunks (ustr ''a.png'')
        (PNG_SIGNATURE @ [0, 0, 0, 1, 0x74, 0x45, 0x58, 0x74, 0x42, 0x4E, 0x9D, 0xAB, 0xE1])
       = Inl (ValueError
           (ustr ''CRC mismatch for chunk tEXt in a.png: expected 0xD794FA5B, got 0x4E9DABE1''))"
    by (simp only: crc_mismatch_message_example)
  with rd k j b u show ?thesis by blast
qed

section \<open>C4: filter idempotence\<close>

text \<open>
  C4. Applying \<open>filter_chunks\<close> to the kept list of a first application returns that kept
  list unchanged and the removed count 0.
\<close>

theorem filter_chunks_idempotent:
  "filter_chunks (fst (filter_chunks chunks)) = (fst (filter_chunks chunks), 0)"
  by (simp add: filter_chunks_eq)

section \<open>C5: normal end of stream\<close>

text \<open>
  C5. \<open>read_png_chunks\<close> returns a chunk list exactly when the file is the signature
  followed by a sequence of whole chunks with right CRCs, that is, when no byte is left
  where the next length field would start; the loop returns the chunks read so far when
  it finds no byte there. The signature alone gives the empty list. A file without IEND
  and a file in which a chunk follows IEND are read successfully.
\<close>

theorem normal_end_of_stream:
  "(read_png_chunks p s = Inr chunks) =
      (\<exists>rcs. list_all wire_ok rcs \<and> s = PNG_SIGNATURE @ concat (map wire_chunk rcs)
             \<and> chunks = map parsed rcs)
   \<and> read_loop p [] acc = Inr acc
   \<and> read_png_chunks p PNG_SIGNATURE = Inr []
   \<and> read_png_chunks p (PNG_SIGNATURE @ bytes_IDAT) = Inr [chunk_IDAT]
   \<and> read_png_chunks p (PNG_SIGNATURE @ bytes_IEND @ bytes_IDAT) = Inr [chunk_IEND, chunk_IDAT]"
proof -
  have "(read_png_chunks p s = Inr chunks) =
      (\<exists>rcs. list_all wire_ok rcs \<and> s = PNG_SIGNATURE @ concat (map wire_chunk rcs)
             \<and> chunks = map parsed rcs)"
  proof
    assume "read_png_chunks p s = Inr chunks"
    then show "\<exists>rcs. list_all wire_ok rcs \<and> s = PNG_SIGNATURE @ concat (map wire_chunk rcs)
                 \<and> chunks = map parsed rcs"
      by (rule read_png_chunks_Inr_wire)
  next
    assume "\<exists>rcs. list_all wire_ok rcs \<and> s = PNG_SIGNATURE @ concat (map wire_chunk rcs)
                 \<and> chunks = map parsed rcs"
    then obtain rcs where "list_all wire_ok rcs" "s = PNG_SIGNATURE @ concat (map wire_chunk rcs)"
      "chunks = map parsed rcs"
      by blast
    then show "read_png_chunks p s = Inr chunks" by (simp add: read_png_chunks_wire_list)
  qed
  moreover have "read_png_chunks p PNG_SIGNATURE = Inr []"
    using read_png_chunks_wire_list [of "[]" p] by simp
  ultimately show ?thesis
    by (simp only: read_loop_Nil read_IDAT read_IEND_IDAT simp_thms)
qed

section \<open>C6: truncation diagnostics\<close>

text \<open>
  C6 as stated fails. A file that ends inside the length field of its first chunk
  and a file that ends inside the length field of its second chunk raise the same
  message, which names the field and the path only; so do two files that end inside the
  type fields of chunks with different indices and different type bytes. No message of
  the reader carries a chunk index.
\<close>

theorem truncation_message_counterexample:
  "read_png_chunks (ustr ''a.png'') (PNG_SIGNATURE @ [0])
     = Inl (ValueError (ustr ''Unexpected EOF while reading length in a.png''))
   \<and> read_png_chunks (ustr ''a.png'') ((PNG_SIGNATURE @ bytes_IEND) @ [0])
     = Inl (ValueError (ustr ''Unexpected EOF while reading length in a.png''))
   \<and> read_png_chunks (ustr ''a.png'') (PNG_SIGNATURE @ [0, 0, 0, 0, 0x49, 0x48])
     = Inl (ValueError (ustr ''Unexpected EOF while reading type in a.png''))
   \<and> read_png_chunks (ustr ''a.png'') ((PNG_SIGNATURE @ bytes_IEND) @ [0, 0, 0, 0, 0x74, 0x45])
     = Inl (ValueError (ustr ''Unexpected EOF while reading type in a.png''))"
proof -
  have l: "msg_eof_length (ustr ''a.png'') = ustr ''Unexpected EOF while reading length in a.png''"
    by (simp add: msg_eof_length_def ustr_def)
  have t: "msg_eof_type (ustr ''a.png'') = ustr ''Unexpected EOF while reading type in a.png''"
    by (simp add: msg_eof_type_def ustr_def)
  have 1: "read_png_chunks (ustr ''a.png'') (PNG_SIGNATURE @ [0])
     = Inl (ValueError (msg_eof_length (ustr ''a.png'')))"
    by (simp add: read_png_chunks_wire read_loop_eof_length)
  have 2: "read_png_chunks (ustr ''a.png'') ((PNG_SIGNATURE @ bytes_IEND) @ [0])
     = Inl (ValueError (msg_eof_length (ustr ''a.png'')))"
    using read_png_chunks_append [OF read_IEND, of "ustr ''a.png''" "[0]"]
    by (simp add: read_loop_eof_length)
  have 3: "read_png_chunks (ustr ''a.png'') (PNG_SIGNATURE @ [0, 0, 0, 0, 0x49, 0x48])
     = Inl (ValueError (msg_eof_type (ustr ''a.png'')))"
    by (simp add: read_png_chunks_wire read_loop_eof_type)
  have 4: "read_png_chunks (ustr ''a.png'') ((PNG_SIGNATURE @ bytes_IEND) @ [0, 0, 0, 0, 0x74, 0x45])
     = Inl (ValueError (msg_eof_type (ustr ''a.png'')))"
    using read_png_chunks_append [OF read_IEND, of "ustr ''a.png''" "[0, 0, 0, 0, 0x74, 0x45]"]
    by (simp add: read_loop_eof_type)
  from 1 2 3 4 show ?thesis unfolding l t by blast
qed

text \<open>
  C6 (amended). Let \<open>s0\<close> be a file that is read successfully, followed by an incomplete
  chunk. If the file ends inside the length field, \<open>read_png_chunks\<close> raises the
  ValueError "Unexpected EOF while reading length in <path>"; if it ends before the type
  is complete, "Unexpected EOF while reading type in <path>"; if it ends before the
  declared number of data bytes is there, "Unexpected EOF while reading data for <type> in
  <path>"; if it ends before the CRC is complete, "Unexpected EOF while reading CRC for
  <type> in <path>", where <type> is the decoded type of the chunk being read. (These are
  the errors that the specification calls TruncationError.)
\<close>

theorem truncation_diagnostics:
  assumes "read_png_chunks p s0 = Inr chunks0"
  shows "(t \<noteq> [] \<and> length t < 4 \<longrightarrow>
            read_png_chunks p (s0 @ t) = Inl (ValueError (msg_eof_length p)))
       \<and> (length lb = 4 \<and> length t < 4 \<longrightarrow>
            read_png_chunks p (s0 @ lb @ t) = Inl (ValueError (msg_eof_type p)))
       \<and> (length lb = 4 \<and> length tb = 4 \<and> int (length t) < from_bytes_big lb \<longrightarrow>
            read_png_chunks p (s0 @ lb @ tb @ t)
              = Inl (ValueError (msg_eof_data (decode_ascii_replace tb) p)))
       \<and> (length lb = 4 \<and> length tb = 4 \<and> int (length d) = from_bytes_big lb \<and> length t < 4 \<longrightarrow>
            read_png_chunks p (s0 @ lb @ tb @ d @ t)
              = Inl (ValueError (msg_eof_crc (decode_ascii_replace tb) p)))"
proof (intro conjI impI)
  assume "t \<noteq> [] \<and> length t < 4"
  then show "read_png_chunks p (s0 @ t) = Inl (ValueError (msg_eof_length p))"
    by (simp add: read_png_chunks_append [OF assms] read_loop_eof_length)
next
  assume "length lb = 4 \<and> length t < 4"
  then show "read_png_chunks p (s0 @ lb @ t) = Inl (ValueError (msg_eof_type p))"
    by (simp add: read_png_chunks_append [OF assms] read_loop_eof_type)
next
  assume a: "length lb = 4 \<and> length tb = 4 \<and> int (length t) < from_bytes_big lb"
  then have "read_loop p (lb @ tb @ t) chunks0 =
      Inl (ValueError (msg_eof_data (decode_ascii_replace (take 4 (drop 4 (lb @ tb @ t)))) p))"
    by (intro read_loop_eof_data) simp_all
  with a show "read_png_chunks p (s0 @ lb @ tb @ t)
              = Inl (ValueError (msg_eof_data (decode_ascii_replace tb) p))"
    by (simp add: read_png_chunks_append [OF assms])
next
  assume a: "length lb = 4 \<and> length tb = 4 \<and> int (length d) = from_bytes_big lb \<and> length t < 4"
  then have "read_loop p (lb @ tb @ d @ t) chunks0 =
      Inl (ValueError (msg_eof_crc (decode_ascii_replace (take 4 (drop 4 (lb @ tb @ d @ t)))) p))"
    by (intro read_loop_eof_crc) simp_all
  with a show "read_png_chunks p (s0 @ lb @ tb @ d @ t)
              = Inl (ValueError (msg_eof_crc (decode_ascii_replace tb) p))"
    by (simp add: read_png_chunks_append [OF assms])
qed

theorem truncation_diagnostics_witness:
  "read_png_chunks (ustr ''a.png'') (PNG_SIGNATURE @ bytes_IEND) = Inr [chunk_IEND]
   \<and> read_png_chunks (ustr ''a.png'') ((PNG_SIGNATURE @ bytes_IEND) @ [0, 0])
       = Inl (ValueError (msg_eof_length (ustr ''a.png'')))
   \<and> read_png_chunks (ustr ''a.png'') ((PNG_SIGNATURE @ bytes_IEND) @ [0, 0, 0, 5] @ [0x74, 0x45])
       = Inl (ValueError (msg_eof_type (ustr ''a.png'')))
   \<and> read_png_chunks (ustr ''a.png'')
        ((PNG_SIGNATURE @ bytes_IEND) @ [0, 0, 0, 5] @ [0x74, 0x45, 0x58, 0x74] @ [0x41, 0x42])
       = Inl (ValueError (msg_eof_data (ustr ''tEXt'') (ustr ''a.png'')))
   \<and> read_png_chunks (ustr ''a.png'')
        ((PNG_SIGNATURE @ bytes_IEND) @ [0, 0, 0, 1] @ [0x74, 0x45, 0x58, 0x74] @ [0x41] @ [0x4E, 0x9D])
       = Inl (ValueError (msg_eof_crc (ustr ''tEXt'') (ustr ''a.png'')))"
proof -
  have rd: "read_png_chunks (ustr ''a.png'') (PNG_SIGNATURE @ bytes_IEND) = Inr [chunk_IEND]"
    by (rule read_IEND)
  have dec: "decode_ascii_replace [0x74, 0x45, 0x58, 0x74] = ustr ''tEXt''"
    by (simp add: decode_ascii_replace_def ustr_def)
  have 1: "read_png_chunks (ustr ''a.png'') ((PNG_SIGNATURE @ bytes_IEND) @ [0, 0])
       = Inl (ValueError (msg_eof_length (ustr ''a.png'')))"
    using truncation_diagnostics [OF rd, of "[0, 0]"] by simp
  have 2: "read_png_chunks (ustr ''a.png'') ((PNG_SIGNATURE @ bytes_IEND) @ [0, 0, 0, 5] @ [0x74, 0x45])
       = Inl (ValueError (msg_eof_type (ustr ''a.png'')))"
    using truncation_diagnostics [OF rd, of _ "[0, 0, 0, 5]" "[0x74, 0x45]"] by simp
  have 3: "read_png_chunks (ustr ''a.png'')
        ((PNG_SIGNATURE @ bytes_IEND) @ [0, 0, 0, 5] @ [0x74, 0x45, 0x58, 0x74] @ [0x41, 0x42])
       = Inl (ValueError (msg_eof_data (ustr ''tEXt'') (ustr ''a.png'')))"
    using truncation_diagnostics [OF rd, of "[0x41, 0x42]" "[0, 0, 0, 5]" "[0x74, 0x45, 0x58, 0x74]"]
    by (simp add: from_bytes_big_def dec)
  have 4: "read_png_chunks (ustr ''a.png'')
        ((PNG_SIGNATURE @ bytes_IEND) @ [0, 0, 0, 1] @ [0x74, 0x45, 0x58, 0x74] @ [0x41] @ [0x4E, 0x9D])
       = Inl (ValueError (msg_eof_crc (ustr ''tEXt'') (ustr ''a.png'')))"
    using truncation_diagnostics
      [OF rd, of "[0x4E, 0x9D]" "[0, 0, 0, 1]" "[0x74, 0x45, 0x58, 0x74]" "[0x41]"]
    by (simp add: from_bytes_big_def dec)
  from rd 1 2 3 4 show ?thesis by blast
qed

section \<open>C7: reader chunk invariant\<close>

text \<open>
  C7. Every chunk of the list returned by a successful \<open>read_png_chunks\<close> has a length
  equal to the number of its data bytes, a CRC with \<open>0 \<le> crc < 2^32\<close> that equals the
  CRC-32 (polynomial 0xEDB88320) of the four raw type bytes of the chunk in the file
  followed by the data, and a type of four characters, the decoding of those raw bytes.
\<close>

theorem reader_chunk_invariant:
  assumes "read_png_chunks p s = Inr chunks" "k < length chunks"
  shows "ch_length (chunks ! k) = int (length (ch_data (chunks ! k)))
       \<and> 0 \<le> ch_crc (chunks ! k) \<and> ch_crc (chunks ! k) < 2 ^ 32
       \<and> ch_crc (chunks ! k)
           = binascii_crc32 (take 4 (drop (chunk_offset chunks k + 4) s) @ ch_data (chunks ! k))
       \<and> ch_type (chunks ! k) = decode_ascii_replace (take 4 (drop (chunk_offset chunks k + 4) s))
       \<and> length (ch_type (chunks ! k)) = 4"
proof -
  from read_png_chunks_at [OF assms] obtain tb d pre post where tb: "length tb = 4"
    and c: "chunks ! k = parsed (tb, d)" and pre: "length pre = chunk_offset chunks k"
    and s: "s = pre @ u32be (int (length d)) @ tb @ d @ u32be (binascii_crc32 (tb @ d)) @ post"
    by blast
  have "drop (chunk_offset chunks k + 4) s = tb @ d @ u32be (binascii_crc32 (tb @ d)) @ post"
    unfolding s pre [symmetric] by (simp add: add.commute)
  then have t: "take 4 (drop (chunk_offset chunks k + 4) s) = tb" using tb by simp
  show ?thesis
    unfolding t c using tb binascii_crc32_range [of "tb @ d"]
    by (simp add: parsed_def decode_ascii_replace_def)
qed

theorem reader_chunk_invariant_witness:
  "read_png_chunks (ustr ''a.png'') (PNG_SIGNATURE @ bytes_tEXt) = Inr [chunk_tEXt]
   \<and> (0 :: nat) < length [chunk_tEXt]
   \<and> ch_length chunk_tEXt = int (length (ch_data chunk_tEXt))
   \<and> 0 \<le> ch_crc chunk_tEXt \<and> ch_crc chunk_tEXt < 2 ^ 32
   \<and> ch_crc chunk_tEXt
       = binascii_crc32 (take 4 (drop (chunk_offset [chunk_tEXt] 0 + 4) (PNG_SIGNATURE @ bytes_tEXt))
                          @ ch_data chunk_tEXt)
   \<and> length (ch_type chunk_tEXt) = 4"
proof -
  have rd: "read_png_chunks (ustr ''a.png'') (PNG_SIGNATURE @ bytes_tEXt) = Inr [chunk_tEXt]"
    by (rule read_tEXt)
  have k: "(0 :: nat) < length [chunk_tEXt]" by simp
  have n: "[chunk_tEXt] ! 0 = chunk_tEXt" by simp
  from reader_chunk_invariant [OF rd k, unfolded n] rd k show ?thesis by blast
qed

section \<open>C8: writer size\<close>

text \<open>
  C8. For every chunk list made of chunks that the reader produced from a file (the full
  list or any selection of it, such as the kept list of the filter) and whose types are
  ASCII, every chunk satisfies \<open>length == len(data)\<close> and has a four-character type, and
  \<open>write_png_chunks\<close> returns the number of bytes written, which is 8 plus the sum over
  the chunks of 12 + length.
\<close>

theorem writer_size:
  assumes rd: "read_png_chunks p s = Inr chunks0" and sub: "set chunks \<subseteq> set chunks0"
    and asc: "list_all (\<lambda>ch. list_all (\<lambda>c. c < 128) (ch_type ch)) chunks"
  shows "list_all (\<lambda>ch. ch_length ch = int (length (ch_data ch)) \<and> length (ch_type ch) = 4) chunks
       \<and> (\<exists>f. write_png_chunks chunks
               = Inr (f, 8 + sum_list (map (\<lambda>ch. 12 + ch_length ch) chunks))
             \<and> int (length f) = 8 + sum_list (map (\<lambda>ch. 12 + ch_length ch) chunks))"
proof -
  have each: "ch_length ch = int (length (ch_data ch)) \<and> length (ch_type ch) = 4
       \<and> ch_length ch < 2 ^ 32 \<and> 0 \<le> ch_crc ch \<and> ch_crc ch < 2 ^ 32" if "ch \<in> set chunks" for ch
    using that sub read_png_chunks_fields [OF rd] by blast
  have h: "list_all (\<lambda>ch. ch_length ch = int (length (ch_data ch)) \<and> length (ch_type ch) = 4
              \<and> list_all (\<lambda>c. c < 128) (ch_type ch) \<and> ch_length ch < 2 ^ 32
              \<and> 0 \<le> ch_crc ch \<and> ch_crc ch < 2 ^ 32) chunks"
  proof (subst list_all_iff, rule ballI)
    fix ch
    assume m: "ch \<in> set chunks"
    from asc m have "list_all (\<lambda>c. c < 128) (ch_type ch)" by (simp add: list_all_iff)
    with each [OF m] show "ch_length ch = int (length (ch_data ch)) \<and> length (ch_type ch) = 4
              \<and> list_all (\<lambda>c. c < 128) (ch_type ch) \<and> ch_length ch < 2 ^ 32
              \<and> 0 \<le> ch_crc ch \<and> ch_crc ch < 2 ^ 32"
      by blast
  qed
  have 1: "list_all (\<lambda>ch. ch_length ch = int (length (ch_data ch)) \<and> length (ch_type ch) = 4) chunks"
  proof (subst list_all_iff, rule ballI)
    fix ch
    assume "ch \<in> set chunks"
    from each [OF this]
    show "ch_length ch = int (length (ch_data ch)) \<and> length (ch_type ch) = 4" by blast
  qed
  from write_loop_size [OF h, of PNG_SIGNATURE] obtain g
    where "write_loop chunks PNG_SIGNATURE = Inr g"
      "int (length g) = 8 + sum_list (map (\<lambda>ch. 12 + ch_length ch) chunks)"
    by auto
  then have "\<exists>f. write_png_chunks chunks
               = Inr (f, 8 + sum_list (map (\<lambda>ch. 12 + ch_length ch) chunks))
             \<and> int (length f) = 8 + sum_list (map (\<lambda>ch. 12 + ch_length ch) chunks)"
    by (simp add: write_png_chunks_def)
  with 1 show ?thesis by blast
qed

theorem writer_size_witness:
  "read_png_chunks (ustr ''a.png'') (PNG_SIGNATURE @ bytes_tEXt @ bytes_IEND)
     = Inr [chunk_tEXt, chunk_IEND]
   \<and> fst (filter_chunks [chunk_tEXt, chunk_IEND]) = [chunk_IEND]
   \<and> set [chunk_IEND] \<subseteq> set [chunk_tEXt, chunk_IEND]
   \<and> list_all (\<lambda>ch. list_all (\<lambda>c. c < 128) (ch_type ch)) [chunk_IEND]
   \<and> map_sum id snd (write_png_chunks [chunk_IEND]) = Inr 20
   \<and> list_all (\<lambda>ch. list_all (\<lambda>c. c < 128) (ch_type ch)) [chunk_tEXt, chunk_IEND]
   \<and> map_sum id snd (write_png_chunks [chunk_tEXt, chunk_IEND]) = Inr 33"
proof -
  have rd: "read_png_chunks (ustr ''a.png'') (PNG_SIGNATURE @ bytes_tEXt @ bytes_IEND)
     = Inr [chunk_tEXt, chunk_IEND]"
    by (rule read_tEXt_IEND)
  have flt: "fst (filter_chunks [chunk_tEXt, chunk_IEND]) = [chunk_IEND]"
    by (simp add: filter_chunks_def chunk_tEXt_def chunk_IEND_def CORE_CHUNKS_def
        DROP_CHUNKS_def ustr_def)
  have sub: "set [chunk_IEND] \<subseteq> set [chunk_tEXt, chunk_IEND]" by simp
  have asc: "list_all (\<lambda>ch. list_all (\<lambda>c. c < 128) (ch_type ch)) [chunk_IEND]"
    by (simp add: chunk_IEND_def ustr_def)
  have asc2: "list_all (\<lambda>ch. list_all (\<lambda>c. c < 128) (ch_type ch)) [chunk_tEXt, chunk_IEND]"
    by (simp add: chunk_tEXt_def chunk_IEND_def ustr_def)
  from writer_size [OF rd sub asc] obtain f where
    "write_png_chunks [chunk_IEND]
       = Inr (f, 8 + sum_list (map (\<lambda>ch. 12 + ch_length ch) [chunk_IEND]))"
    by blast
  then have 1: "map_sum id snd (write_png_chunks [chunk_IEND]) = Inr 20"
    by (simp add: chunk_IEND_def)
  from writer_size [OF rd subset_refl asc2] obtain g where
    "write_png_chunks [chunk_tEXt, chunk_IEND]
       = Inr (g, 8 + sum_list (map (\<lambda>ch. 12 + ch_length ch) [chunk_tEXt, chunk_IEND]))"
    by blast
  then have 2: "map_sum id snd (write_png_chunks [chunk_tEXt, chunk_IEND]) = Inr 33"
    by (simp add: chunk_tEXt_def chunk_IEND_def)
  from rd flt sub asc asc2 1 2 show ?thesis by blast
qed

section \<open>C9: classification equivalence\<close>

text \<open>
  C9. For every raw chunk type (in particular every four-byte one), the decision that the
  filter takes on the decoded type string is the decision taken by comparing the raw bytes
  with the ASCII encodings of \<open>CORE_CHUNKS\<close> and \<open>DROP_CHUNKS\<close>; \<open>filter_chunks\<close> on a chunk
  with the decoded type keeps or drops it accordingly.
\<close>

theorem classification_equivalence:
  "type_decision (decode_ascii_replace type_bytes) = raw_decision type_bytes
   \<and> filter_chunks [ch\<lparr>ch_type := decode_ascii_replace type_bytes\<rparr>]
       = (case raw_decision type_bytes of
            Core \<Rightarrow> ([ch\<lparr>ch_type := decode_ascii_replace type_bytes\<rparr>], 0)
          | Drop \<Rightarrow> ([], 1)
          | Pass_through \<Rightarrow> ([ch\<lparr>ch_type := decode_ascii_replace type_bytes\<rparr>], 0))"
  by (simp add: type_decision_def raw_decision_def filter_chunks_def decode_in_CORE decode_in_DROP)

section \<open>C10: a file that is read but cannot be written\<close>

text \<open>
  C10. The file made of the signature and one chunk without data whose raw type is 0x80
  0x41 0x42 0x43, with the right CRC 0x90DFB37D, is read successfully; its chunk has the
  type U+FFFD "ABC", passes the filter, and \<open>write_png_chunks\<close> on the kept list raises
  UnicodeEncodeError, which is none of the errors of the reader and no I/O error.
\<close>

theorem encode_failure_after_read:
  "read_png_chunks p (PNG_SIGNATURE @ [0, 0, 0, 0, 0x80, 0x41, 0x42, 0x43, 0x90, 0xDF, 0xB3, 0x7D])
     = Inr [\<lparr>ch_length = 0, ch_type = [0xFFFD, 0x41, 0x42, 0x43], ch_data = [],
             ch_crc = 0x90DFB37D\<rparr>]
   \<and> filter_chunks [\<lparr>ch_length = 0, ch_type = [0xFFFD, 0x41, 0x42, 0x43], ch_data = [],
                      ch_crc = 0x90DFB37D\<rparr>]
     = ([\<lparr>ch_length = 0, ch_type = [0xFFFD, 0x41, 0x42, 0x43], ch_data = [],
             ch_crc = 0x90DFB37D\<rparr>], 0)
   \<and> write_png_chunks (fst (filter_chunks [\<lparr>ch_length = 0, ch_type = [0xFFFD, 0x41, 0x42, 0x43],
                                             ch_data = [], ch_crc = 0x90DFB37D\<rparr>]))
     = Inl UnicodeEncodeError"
proof -
  have w: "wire_chunk ([0x80, 0x41, 0x42, 0x43], [])
             = [0, 0, 0, 0, 0x80, 0x41, 0x42, 0x43, 0x90, 0xDF, 0xB3, 0x7D]"
    by (simp add: wire_chunk_def u32be_def crc_80ABC)
  have c: "parsed ([0x80, 0x41, 0x42, 0x43], [])
             = \<lparr>ch_length = 0, ch_type = [0xFFFD, 0x41, 0x42, 0x43], ch_data = [],
                ch_crc = 0x90DFB37D\<rparr>"
    by (simp add: parsed_def crc_80ABC decode_ascii_replace_def)
  have 1: "read_png_chunks p (PNG_SIGNATURE @ [0, 0, 0, 0, 0x80, 0x41, 0x42, 0x43, 0x90, 0xDF, 0xB3, 0x7D])
     = Inr [\<lparr>ch_length = 0, ch_type = [0xFFFD, 0x41, 0x42, 0x43], ch_data = [],
             ch_crc = 0x90DFB37D\<rparr>]"
    using read_png_chunks_wire_list [of "[([0x80, 0x41, 0x42, 0x43], [])]" p]
    by (simp add: wire_ok_def w c)
  have 2: "filter_chunks [\<lparr>ch_length = 0, ch_type = [0xFFFD, 0x41, 0x42, 0x43], ch_data = [],
                      ch_crc = 0x90DFB37D\<rparr>]
     = ([\<lparr>ch_length = 0, ch_type = [0xFFFD, 0x41, 0x42, 0x43], ch_data = [],
             ch_crc = 0x90DFB37D\<rparr>], 0)"
    by (simp add: filter_chunks_def CORE_CHUNKS_def DROP_CHUNKS_def ustr_def)
  have 3: "write_png_chunks [\<lparr>ch_length = 0, ch_type = [0xFFFD, 0x41, 0x42, 0x43],
                                             ch_data = [], ch_crc = 0x90DFB37D\<rparr>]
     = Inl UnicodeEncodeError"
    by (simp add: write_png_chunks_def to_bytes4_def encode_ascii_def)
  from 1 2 3 show ?thesis by simp
qed

end
